theory Spec2Isabelle
  imports Main "HOL-Library.Sublist"
begin

section \<open>Wiktionary translation extractor\<close>

text \<open>
  A shallow embedding of \<^verbatim>\<open>wiktionary_translation_extractor.py\<close>. A Python \<^verbatim>\<open>str\<close> is
  modelled as a \<^typ>\<open>string\<close>, one \<^typ>\<open>char\<close> per code point, so the model covers the inputs
  whose code points are below 256; every marker the program looks for is ASCII. Exceptions
  are values of type \<open>exn\<close>, and a function that can raise returns \<open>exn + 'a\<close>.
\<close>

subsection \<open>Python string and list primitives\<close>

datatype exn = TypeError string | IndexError | AttributeError

text \<open>\<^verbatim>\<open>xs[i]\<close> for a literal index \<open>i \<ge> 0\<close>.\<close>

definition index :: "'a list \<Rightarrow> nat \<Rightarrow> exn + 'a" where
  "index xs i = (if i < length xs then Inr (xs ! i) else Inl IndexError)"

text \<open>\<^verbatim>\<open>s.index(c)\<close> for a one-character \<open>c\<close> that occurs in \<open>s\<close>.\<close>

definition str_index :: "char \<Rightarrow> string \<Rightarrow> nat" where
  "str_index c s = length (takeWhile (\<lambda>x. x \<noteq> c) s)"

text \<open>\<^verbatim>\<open>s[a:-b]\<close> for literals \<open>a \<ge> 0\<close> and \<open>b > 0\<close>: a stop before the start of the
  string is clamped to the start, which is what the truncating subtraction does.\<close>

definition slice :: "nat \<Rightarrow> nat \<Rightarrow> 'a list \<Rightarrow> 'a list" where
  "slice a b s = drop a (take (length s - b) s)"

text \<open>\<^verbatim>\<open>c.isspace()\<close> on the code points below 256.\<close>

definition isspace :: "char \<Rightarrow> bool" where
  "isspace c = (c \<in> set [CHR 0x09, CHR 0x0A, CHR 0x0B, CHR 0x0C, CHR 0x0D, CHR 0x1C,
     CHR 0x1D, CHR 0x1E, CHR 0x1F, CHR 0x20, CHR 0x85, CHR 0xA0])"

definition strip :: "string \<Rightarrow> string" where
  "strip s = rev (dropWhile isspace (rev (dropWhile isspace s)))"

text \<open>\<^verbatim>\<open>s.split(sep)\<close> for a one-character separator. The result is never the empty
  list (\<open>split_not_Nil\<close> below), so the first branch of the \<open>case\<close> is never taken.\<close>

fun split :: "char \<Rightarrow> string \<Rightarrow> string list" where
  "split sep [] = [[]]"
| "split sep (c # cs) =
     (if c = sep then [] # split sep cs
      else (case split sep cs of [] \<Rightarrow> [[c]] | w # ws \<Rightarrow> (c # w) # ws))"

text \<open>\<^verbatim>\<open>sep.join(xs)\<close>.\<close>

fun join :: "string \<Rightarrow> string list \<Rightarrow> string" where
  "join sep [] = []"
| "join sep [x] = x"
| "join sep (x # y # ys) = x @ sep @ join sep (y # ys)"

text \<open>\<^verbatim>\<open>s.replace(old, "")\<close>: the occurrences of \<open>old\<close> are removed from left to right,
  without overlap.\<close>

function replace_empty :: "string \<Rightarrow> string \<Rightarrow> string" where
  "replace_empty old [] = []"
| "replace_empty old (c # cs) =
     (if old \<noteq> [] \<and> prefix old (c # cs)
      then replace_empty old (drop (length old) (c # cs))
      else c # replace_empty old cs)"
  by pat_completeness auto
termination
  by (relation "measure (\<lambda>(old, s). length s)") auto

subsection \<open>Data model\<close>

record Translation =
  language_code :: string
  translation :: string
  is_equivalent_term :: bool
  gender :: "string option"
  script_code :: "string option"
  transliteration :: "string option"
  alternate_form :: "string option"
  literal_translation :: "string option"
  qualifier :: "string option"

text \<open>The dataclass constructor \<^verbatim>\<open>Translation(language_code, translation)\<close> with its
  defaults.\<close>

definition new_Translation :: "string \<Rightarrow> string \<Rightarrow> Translation" where
  "new_Translation lc tr =
     \<lparr>language_code = lc, translation = tr, is_equivalent_term = True, gender = None,
      script_code = None, transliteration = None, alternate_form = None,
      literal_translation = None, qualifier = None\<rparr>"

text \<open>The field \<^verbatim>\<open>translations\<close> of the dataclass is \<open>group_translations\<close> here.\<close>

record TranslationGroup =
  meaning :: string
  group_translations :: "Translation list"

subsection \<open>generate_arguments\<close>

abbreviation MalformedArguments :: exn where
  "MalformedArguments \<equiv> TypeError ''arguments is not of correct format''"

abbreviation UnrecognizedTemplate :: exn where
  "UnrecognizedTemplate \<equiv> TypeError ''Incorrect list type''"

abbreviation MissingRequiredArgument :: exn where
  "MissingRequiredArgument \<equiv> TypeError ''Missing required positional arguments''"

text \<open>The body of the \<^verbatim>\<open>for argument in arguments\<close> loop, on the loop's three variables
  \<open>positional_arguments\<close>, \<open>keyword_arguments\<close> and \<open>keywords\<close>. The dictionary is a map.\<close>

fun generate_arguments_loop ::
  "string list \<Rightarrow> string list \<times> (string \<rightharpoonup> string) \<times> bool
     \<Rightarrow> exn + (string list \<times> (string \<rightharpoonup> string))" where
  "generate_arguments_loop [] (positional_arguments, keyword_arguments, keywords) =
     Inr (positional_arguments, keyword_arguments)"
| "generate_arguments_loop (argument # rest) (positional_arguments, keyword_arguments, keywords) =
     (if sublist ''='' argument then
        (let split_index = str_index CHR ''='' argument in
         generate_arguments_loop rest
           (positional_arguments,
            keyword_arguments(take split_index argument \<mapsto> drop (split_index + 1) argument),
            True))
      else if \<not> keywords then
        generate_arguments_loop rest
          (positional_arguments @ [argument], keyword_arguments, keywords)
      else Inl MalformedArguments)"

definition generate_arguments ::
  "string list \<Rightarrow> exn + (string list \<times> (string \<rightharpoonup> string))" where
  "generate_arguments arguments = generate_arguments_loop arguments ([], Map.empty, False)"

subsection \<open>decode_term\<close>

text \<open>The keyword overrides of lines 104 to 113, in the order of the source.\<close>

definition apply_keywords :: "(string \<rightharpoonup> string) \<Rightarrow> Translation \<Rightarrow> Translation" where
  "apply_keywords keyword result =
     (let result = (if keyword ''sc'' \<noteq> None then result\<lparr>script_code := keyword ''sc''\<rparr> else result);
          result = (if keyword ''tr'' \<noteq> None then result\<lparr>transliteration := keyword ''tr''\<rparr> else result);
          result = (if keyword ''alt'' \<noteq> None then result\<lparr>alternate_form := keyword ''alt''\<rparr> else result);
          result = (if keyword ''lit'' \<noteq> None then result\<lparr>literal_translation := keyword ''lit''\<rparr> else result);
          result = (if keyword ''g'' \<noteq> None then result\<lparr>gender := keyword ''g''\<rparr> else result)
      in result)"

text \<open>
  Line 95 is \<^verbatim>\<open>if "[[" and "]]" in arguments[1]\<close>. Python reads it as
  \<^verbatim>\<open>"[[" and ("]]" in arguments[1])\<close>: the left operand is a non-empty string, hence true,
  and the condition is the membership test of \<^verbatim>\<open>"]]"\<close> alone. \<^verbatim>\<open>arguments[1]\<close> is the
  token after the type name.
\<close>

definition decode_term :: "string list \<Rightarrow> exn + Translation" where
  "decode_term arguments =
     (case index arguments 0 of Inl e \<Rightarrow> Inl e
      | Inr type \<Rightarrow>
        if type \<notin> set [''t'', ''t+'', ''t-simple'', ''tt'', ''tt+''] then Inl UnrecognizedTemplate
        else
          (case generate_arguments (drop 1 arguments) of Inl e \<Rightarrow> Inl e
           | Inr (positional, keyword) \<Rightarrow>
             if length positional < 2 then Inl MissingRequiredArgument
             else
               (let result = new_Translation (positional ! 0) (positional ! 1) in
                case index arguments 1 of Inl e \<Rightarrow> Inl e
                | Inr argument1 \<Rightarrow>
                  (let result =
                     (if ''[['' \<noteq> [] \<and> sublist '']]'' argument1
                      then result\<lparr>is_equivalent_term := False,
                                  translation :=
                                    replace_empty '']]'' (replace_empty ''[['' (translation result))\<rparr>
                      else result);
                       result =
                     (if length positional \<ge> 3 then result\<lparr>gender := Some (positional ! 2)\<rparr>
                      else result)
                   in Inr (apply_keywords keyword result)))))"

subsection \<open>The template calls of a line\<close>

text \<open>
  \<^verbatim>\<open>re.finditer(r"{{.*?}}", s)\<close>. After an opening \<^verbatim>\<open>{{\<close>, \<open>match_rest\<close> extends the lazy
  \<^verbatim>\<open>.*?\<close> one character at a time until \<^verbatim>\<open>}}\<close> follows; the dot does not match a newline,
  so the attempt fails there and at the end of the text. It returns \<^verbatim>\<open>group(0)\<close> and the
  text after the match. \<open>finditer\<close> tries every start from left to right and resumes after
  a match.
\<close>

fun match_rest :: "string \<Rightarrow> string \<Rightarrow> (string \<times> string) option" where
  "match_rest acc [] = None"
| "match_rest acc (c # cs) =
     (if prefix ''}}'' (c # cs) then Some (''{{'' @ rev acc @ ''}}'', drop 2 (c # cs))
      else if c = CHR 0x0A then None
      else match_rest (c # acc) cs)"

lemma match_rest_length: "match_rest acc s = Some (m, rest) \<Longrightarrow> length rest < length s"
proof (induction s arbitrary: acc)
  case Nil
  then show ?case by simp
next
  case (Cons c cs)
  show ?case
  proof (cases "prefix ''}}'' (c # cs)")
    case True
    with Cons.prems show ?thesis by auto
  next
    case False
    with Cons.prems have "match_rest (c # acc) cs = Some (m, rest)"
      by (simp split: if_splits)
    then have "length rest < length cs" by (rule Cons.IH)
    then show ?thesis by simp
  qed
qed

function finditer :: "string \<Rightarrow> string list" where
  "finditer [] = []"
| "finditer (c # cs) =
     (if prefix ''{{'' (c # cs) then
        (case match_rest [] (drop 2 (c # cs)) of
           Some (m, rest) \<Rightarrow> m # finditer rest
         | None \<Rightarrow> finditer cs)
      else finditer cs)"
  by pat_completeness auto
termination
  by (relation "measure length") (auto dest!: match_rest_length)

text \<open>The token groups of one comma-separated piece of a line (line 153).\<close>

definition codeblocks :: "string \<Rightarrow> string list list" where
  "codeblocks segment = map (\<lambda>x. split CHR ''|'' (slice 2 2 x)) (finditer segment)"

text \<open>
  The loop over the token groups (lines 153 to 163) on the variable \<^verbatim>\<open>qualifier\<close> and the
  object \<^verbatim>\<open>group\<close>, which is \<^verbatim>\<open>None\<close> before the first block opens. Only \<^verbatim>\<open>TypeError\<close> is
  caught.
\<close>

fun codeblock_loop ::
  "string list list \<Rightarrow> string option \<times> TranslationGroup option
     \<Rightarrow> exn + (string option \<times> TranslationGroup option)" where
  "codeblock_loop [] (qual, grp) = Inr (qual, grp)"
| "codeblock_loop (codeblock # rest) (qual, grp) =
     (case index codeblock 0 of Inl e \<Rightarrow> Inl e
      | Inr tag \<Rightarrow>
        if tag = ''qualifier'' \<and> length codeblock > 1 then
          codeblock_loop rest (Some (join ''|'' (drop 1 codeblock)), grp)
        else
          (case decode_term codeblock of
             Inl (TypeError msg) \<Rightarrow> codeblock_loop rest (qual, grp)
           | Inl e \<Rightarrow> Inl e
           | Inr new_entry \<Rightarrow>
             (case grp of None \<Rightarrow> Inl AttributeError
              | Some g \<Rightarrow>
                codeblock_loop rest
                  (qual,
                   Some (g\<lparr>group_translations :=
                              group_translations g @ [new_entry\<lparr>qualifier := qual\<rparr>]\<rparr>)))))"

text \<open>The loop over \<^verbatim>\<open>line.split(",")\<close> (lines 149 to 163).\<close>

fun segment_loop :: "string list \<Rightarrow> TranslationGroup option \<Rightarrow> exn + TranslationGroup option" where
  "segment_loop [] grp = Inr grp"
| "segment_loop (segment # rest) grp =
     (case codeblock_loop (codeblocks segment) (None, grp) of Inl e \<Rightarrow> Inl e
      | Inr (qual, grp') \<Rightarrow> segment_loop rest grp')"

subsection \<open>The main loop\<close>

text \<open>
  The variables that live across lines. \<open>all_translations\<close> is the \<^verbatim>\<open>defaultdict(list)\<close>
  named \<^verbatim>\<open>translations\<close>, as an association list in insertion order, which is the order
  \<^verbatim>\<open>items()\<close> yields. The group object is changed only while \<^verbatim>\<open>recording\<close> is true, and a
  group is stored in the dictionary only by the branch that sets \<^verbatim>\<open>recording\<close> to false, so
  no stored group is changed afterwards and values stand for the objects.
\<close>

record state =
  page_title :: "string option"
  recording :: bool
  group :: "TranslationGroup option"
  all_translations :: "(string option \<times> TranslationGroup option list) list"

definition initial :: state where
  "initial = \<lparr>page_title = None, recording = False, group = None, all_translations = []\<rparr>"

text \<open>\<^verbatim>\<open>d[k].append(v)\<close> on a \<^verbatim>\<open>defaultdict(list)\<close>.\<close>

fun dict_append :: "('k \<times> 'v list) list \<Rightarrow> 'k \<Rightarrow> 'v \<Rightarrow> ('k \<times> 'v list) list" where
  "dict_append [] k v = [(k, [v])]"
| "dict_append ((k', vs) # d) k v =
     (if k' = k then (k', vs @ [v]) # d else (k', vs) # dict_append d k v)"

definition step :: "state \<Rightarrow> string \<Rightarrow> exn + state" where
  "step s line =
     (if sublist ''<title>'' line then
        (let title = slice 7 8 (strip line);
             title = (if suffix ''/translations'' title then take (length title - 13) title
                      else title)
         in Inr (s\<lparr>page_title := Some title\<rparr>))
      else if sublist ''{{trans-top|'' line then
        Inr (s\<lparr>recording := True,
               group := Some \<lparr>meaning = slice 12 2 (strip line), group_translations = []\<rparr>\<rparr>)
      else if sublist ''{{trans-bottom}}'' line then
        Inr (s\<lparr>recording := False,
               all_translations := dict_append (all_translations s) (page_title s) (group s)\<rparr>)
      else if sublist ''{{trans-mid}}'' line then Inr s
      else if recording s then
        (case segment_loop (split CHR '','' line) (group s) of Inl e \<Rightarrow> Inl e
         | Inr grp \<Rightarrow> Inr (s\<lparr>group := grp\<rparr>))
      else Inr s)"

fun run :: "state \<Rightarrow> string list \<Rightarrow> exn + state" where
  "run s [] = Inr s"
| "run s (line # rest) = (case step s line of Inl e \<Rightarrow> Inl e | Inr s' \<Rightarrow> run s' rest)"

subsection \<open>The output loop\<close>

type_synonym row =
  "string option \<times> string \<times> string \<times> string \<times> bool \<times> string option \<times> string option
     \<times> string option \<times> string option \<times> string option \<times> string option"

definition parameters :: "string option \<Rightarrow> TranslationGroup \<Rightarrow> Translation \<Rightarrow> row" where
  "parameters word g t =
     (word, meaning g, language_code t, translation t, is_equivalent_term t, gender t,
      script_code t, transliteration t, alternate_form t, literal_translation t, qualifier t)"

text \<open>The rows of one page; reading \<^verbatim>\<open>group.translations\<close> of \<^verbatim>\<open>None\<close> raises.\<close>

fun group_rows :: "string option \<Rightarrow> TranslationGroup option list \<Rightarrow> exn + row list" where
  "group_rows word [] = Inr []"
| "group_rows word (None # gs) = Inl AttributeError"
| "group_rows word (Some g # gs) =
     (case group_rows word gs of Inl e \<Rightarrow> Inl e
      | Inr rows \<Rightarrow> Inr (map (parameters word g) (group_translations g) @ rows))"

fun output_loop :: "(string option \<times> TranslationGroup option list) list \<Rightarrow> exn + row list" where
  "output_loop [] = Inr []"
| "output_loop ((word, meaning_group) # d) =
     (case group_rows word meaning_group of Inl e \<Rightarrow> Inl e
      | Inr rows \<Rightarrow> (case output_loop d of Inl e \<Rightarrow> Inl e | Inr rows' \<Rightarrow> Inr (rows @ rows')))"

text \<open>The whole program on the lines of the input: the rows inserted, or the exception
  that ends the run before the commit.\<close>

definition main :: "string list \<Rightarrow> exn + row list" where
  "main lines =
     (case run initial lines of Inl e \<Rightarrow> Inl e | Inr s \<Rightarrow> output_loop (all_translations s))"

subsection \<open>Notions used in the statements\<close>

text \<open>A keyword token, the pair it is split into at its first \<^verbatim>\<open>=\<close>, and a token list in
  which a positional token follows a keyword token.\<close>

definition is_keyword :: "string \<Rightarrow> bool" where
  "is_keyword a = (CHR ''='' \<in> set a)"

definition keyword_pair :: "string \<Rightarrow> string \<times> string" where
  "keyword_pair a =
     (takeWhile (\<lambda>c. c \<noteq> CHR ''='') a, tl (dropWhile (\<lambda>c. c \<noteq> CHR ''='') a))"

definition positional_after_keyword :: "string list \<Rightarrow> bool" where
  "positional_after_keyword args =
     (\<exists>j < length args. \<exists>i < j. is_keyword (args ! i) \<and> \<not> is_keyword (args ! j))"

text \<open>The template names of line 84.\<close>

abbreviation accepted :: "string list" where
  "accepted \<equiv> [''t'', ''t+'', ''t-simple'', ''tt'', ''tt+'']"

text \<open>The entry that lines 92 to 113 build from the split arguments, once the two index
  reads are known to succeed.\<close>

definition build_entry :: "string list \<Rightarrow> (string \<rightharpoonup> string) \<Rightarrow> Translation" where
  "build_entry pos kw =
     apply_keywords kw
       ((if 3 \<le> length pos then (\<lambda>r. r\<lparr>gender := Some (pos ! 2)\<rparr>) else (\<lambda>r. r))
         ((if sublist '']]'' (pos ! 0)
           then (\<lambda>r. r\<lparr>is_equivalent_term := False,
                   translation := replace_empty '']]'' (replace_empty ''[['' (pos ! 1))\<rparr>)
           else (\<lambda>r. r))
          (new_Translation (pos ! 0) (pos ! 1))))"

text \<open>A token group that line 154 takes as a qualifier annotation.\<close>

definition is_qualifier_call :: "string list \<Rightarrow> bool" where
  "is_qualifier_call cb = (case cb of [] \<Rightarrow> False | tag # rest \<Rightarrow> tag = ''qualifier'' \<and> rest \<noteq> [])"

text \<open>The kinds of line, by the branch of the main loop that takes them.\<close>

definition is_title_line :: "string \<Rightarrow> bool" where
  "is_title_line line = sublist ''<title>'' line"

definition is_open_line :: "string \<Rightarrow> bool" where
  "is_open_line line = (\<not> sublist ''<title>'' line \<and> sublist ''{{trans-top|'' line)"

definition is_close_line :: "string \<Rightarrow> bool" where
  "is_close_line line =
     (\<not> sublist ''<title>'' line \<and> \<not> sublist ''{{trans-top|'' line
      \<and> sublist ''{{trans-bottom}}'' line)"

definition is_content_line :: "string \<Rightarrow> bool" where
  "is_content_line line =
     (\<not> sublist ''<title>'' line \<and> \<not> sublist ''{{trans-top|'' line
      \<and> \<not> sublist ''{{trans-bottom}}'' line \<and> \<not> sublist ''{{trans-mid}}'' line)"

text \<open>While \<^verbatim>\<open>recording\<close> is true the group object exists.\<close>

definition wf_state :: "state \<Rightarrow> bool" where
  "wf_state s = (recording s \<longrightarrow> group s \<noteq> None)"

text \<open>
  The qualifier in force after the token groups \<open>cbs\<close> of one segment: the tokens after the
  name of the last qualifier annotation, joined with \<^verbatim>\<open>|\<close>, or none. The entries of a
  segment: each token group that is not a qualifier annotation and decodes gives one entry,
  with the qualifier in force after the groups before it. The entries of a line are those of
  its comma-separated segments, each starting with no qualifier.
\<close>

definition current_qualifier :: "string list list \<Rightarrow> string option" where
  "current_qualifier cbs =
     (case rev (filter is_qualifier_call cbs) of [] \<Rightarrow> None
      | cb # earlier \<Rightarrow> Some (join ''|'' (tl cb)))"

definition entry_at :: "string list list \<Rightarrow> nat \<Rightarrow> Translation list" where
  "entry_at cbs i =
     (if is_qualifier_call (cbs ! i) then []
      else case decode_term (cbs ! i) of
             Inr e \<Rightarrow> [e\<lparr>qualifier := current_qualifier (take i cbs)\<rparr>]
           | Inl err \<Rightarrow> [])"

definition segment_entries :: "string list list \<Rightarrow> Translation list" where
  "segment_entries cbs = concat (map (entry_at cbs) [0..<length cbs])"

definition line_entries :: "string \<Rightarrow> Translation list" where
  "line_entries line =
     concat (map (\<lambda>segment. segment_entries (codeblocks segment)) (split CHR '','' line))"

subsection \<open>Facts about the primitives\<close>

lemma sublist_single: "sublist [c] s \<longleftrightarrow> c \<in> set s"
  by (induction s) (auto simp: sublist_Cons_right)

lemma split_not_Nil: "split sep s \<noteq> []"
  by (induction s) (auto split: list.splits)

lemmas decode_eval =
  decode_term_def index_def generate_arguments_def str_index_def apply_keywords_def
  new_Translation_def sublist_Cons_right prefix_code

subsection \<open>Facts about generate_arguments and decode_term\<close>

lemma take_str_index: "take (str_index c s) s = takeWhile (\<lambda>x. x \<noteq> c) s"
  by (simp add: str_index_def takeWhile_eq_take [symmetric])

lemma drop_str_index: "drop (Suc (str_index c s)) s = tl (dropWhile (\<lambda>x. x \<noteq> c) s)"
proof -
  have "tl (dropWhile (\<lambda>x. x \<noteq> c) s) = tl (drop (str_index c s) s)"
    unfolding str_index_def by (subst dropWhile_eq_drop) (rule refl)
  then show ?thesis by (simp add: tl_drop drop_Suc)
qed

lemma keyword_pair_split:
  assumes "is_keyword a"
  shows "a = fst (keyword_pair a) @ ''='' @ snd (keyword_pair a)"
    and "CHR ''='' \<notin> set (fst (keyword_pair a))"
proof -
  let ?P = "\<lambda>c. c \<noteq> CHR ''=''"
  from assms have "dropWhile ?P a \<noteq> []"
    by (auto simp: is_keyword_def dropWhile_eq_Nil_conv)
  then obtain r where r: "dropWhile ?P a = CHR ''='' # r"
    using hd_dropWhile [of ?P a] by (cases "dropWhile ?P a") auto
  have "a = takeWhile ?P a @ dropWhile ?P a" by simp
  with r show "a = fst (keyword_pair a) @ ''='' @ snd (keyword_pair a)"
    by (simp add: keyword_pair_def)
  show "CHR ''='' \<notin> set (fst (keyword_pair a))"
    by (auto simp: keyword_pair_def dest: set_takeWhileD)
qed

lemma positional_after_keyword_Cons:
  "positional_after_keyword (a # as) \<longleftrightarrow>
     (is_keyword a \<and> (\<exists>b \<in> set as. \<not> is_keyword b)) \<or> positional_after_keyword as"
proof
  assume "positional_after_keyword (a # as)"
  then obtain i j where ij: "i < j" "j < length (a # as)" "is_keyword ((a # as) ! i)"
    "\<not> is_keyword ((a # as) ! j)"
    by (auto simp: positional_after_keyword_def)
  then obtain j' where j': "j = Suc j'" by (cases j) auto
  show "(is_keyword a \<and> (\<exists>b \<in> set as. \<not> is_keyword b)) \<or> positional_after_keyword as"
  proof (cases i)
    case 0
    with ij j' have "is_keyword a" "as ! j' \<in> set as" "\<not> is_keyword (as ! j')" by auto
    then show ?thesis by blast
  next
    case (Suc i')
    with ij j' have "i' < j'" "j' < length as" "is_keyword (as ! i')" "\<not> is_keyword (as ! j')"
      by auto
    then have "positional_after_keyword as"
      unfolding positional_after_keyword_def by blast
    then show ?thesis ..
  qed
next
  assume "(is_keyword a \<and> (\<exists>b \<in> set as. \<not> is_keyword b)) \<or> positional_after_keyword as"
  then show "positional_after_keyword (a # as)"
  proof
    assume h: "is_keyword a \<and> (\<exists>b \<in> set as. \<not> is_keyword b)"
    then obtain k where k: "k < length as" "\<not> is_keyword (as ! k)"
      by (auto simp: in_set_conv_nth)
    then have "Suc k < length (a # as)" "0 < Suc k" "is_keyword ((a # as) ! 0)"
      "\<not> is_keyword ((a # as) ! Suc k)"
      using h by auto
    then show ?thesis unfolding positional_after_keyword_def by blast
  next
    assume "positional_after_keyword as"
    then obtain i j where "i < j" "j < length as" "is_keyword (as ! i)" "\<not> is_keyword (as ! j)"
      by (auto simp: positional_after_keyword_def)
    then have "Suc j < length (a # as)" "Suc i < Suc j" "is_keyword ((a # as) ! Suc i)"
      "\<not> is_keyword ((a # as) ! Suc j)"
      by auto
    then show ?thesis unfolding positional_after_keyword_def by blast
  qed
qed

lemma generate_arguments_loop_eq:
  "generate_arguments_loop args (pos, kw, kws) =
     (if (kws \<and> (\<exists>b \<in> set args. \<not> is_keyword b)) \<or> positional_after_keyword args
      then Inl MalformedArguments
      else Inr (pos @ filter (\<lambda>a. \<not> is_keyword a) args,
                kw ++ map_of (rev (map keyword_pair (filter is_keyword args)))))"
proof (induction args arbitrary: pos kw kws)
  case Nil
  show ?case by (simp add: positional_after_keyword_def)
next
  case (Cons a as)
  show ?case
  proof (cases "is_keyword a")
    case True
    then have s: "sublist ''='' a" by (simp add: sublist_single is_keyword_def)
    have kp: "keyword_pair a = (take (str_index CHR ''='' a) a, drop (str_index CHR ''='' a + 1) a)"
      by (simp add: keyword_pair_def take_str_index drop_str_index)
    show ?thesis
      using True s
      by (simp add: Cons.IH positional_after_keyword_Cons kp Let_def)
  next
    case False
    then have s: "\<not> sublist ''='' a" by (simp add: sublist_single is_keyword_def)
    show ?thesis
      using False s by (cases kws) (simp_all add: Cons.IH positional_after_keyword_Cons)
  qed
qed

lemma generate_arguments_eq:
  "generate_arguments args =
     (if positional_after_keyword args then Inl MalformedArguments
      else Inr (filter (\<lambda>a. \<not> is_keyword a) args,
                map_of (rev (map keyword_pair (filter is_keyword args)))))"
  by (simp add: generate_arguments_def generate_arguments_loop_eq)


text \<open>What a successful split says about the first tokens.\<close>

lemma filter_not_keyword_prefix:
  assumes "\<not> positional_after_keyword args"
  shows "prefix (filter (\<lambda>a. \<not> is_keyword a) args) args"
  using assms
proof (induction args)
  case Nil
  show ?case by simp
next
  case (Cons a as)
  then have np: "\<not> positional_after_keyword as"
    and k: "is_keyword a \<longrightarrow> (\<forall>b \<in> set as. is_keyword b)"
    by (auto simp: positional_after_keyword_Cons)
  show ?case
  proof (cases "is_keyword a")
    case True
    with k have "filter (\<lambda>a. \<not> is_keyword a) as = []" by (auto simp: filter_empty_conv)
    with True show ?thesis by simp
  next
    case False
    with Cons.IH [OF np] show ?thesis by simp
  qed
qed

lemma generate_arguments_Inr:
  assumes "generate_arguments args = Inr (pos, kw)"
  shows "\<not> positional_after_keyword args"
    and "pos = filter (\<lambda>a. \<not> is_keyword a) args"
    and "kw = map_of (rev (map keyword_pair (filter is_keyword args)))"
    and "prefix pos args"
  using assms filter_not_keyword_prefix [of args]
  by (auto simp: generate_arguments_eq split: if_splits)

lemma generate_arguments_cases:
  obtains "generate_arguments args = Inl MalformedArguments"
  | pos kw where "generate_arguments args = Inr (pos, kw)"
  by (cases "positional_after_keyword args") (simp_all add: generate_arguments_eq)

lemma decode_term_Cons:
  "decode_term (ty # rest) =
     (if ty \<notin> set accepted then Inl UnrecognizedTemplate
      else case generate_arguments rest of Inl e \<Rightarrow> Inl e
        | Inr (pos, kw) \<Rightarrow>
            if length pos < 2 then Inl MissingRequiredArgument else Inr (build_entry pos kw))"
proof (cases "ty \<in> set accepted")
  case False
  then show ?thesis by (simp add: decode_term_def index_def)
next
  case True
  show ?thesis
  proof (cases rule: generate_arguments_cases [of rest])
    case 1
    with True show ?thesis by (simp add: decode_term_def index_def)
  next
    case (2 pos kw)
    show ?thesis
    proof (cases "length pos < 2")
      case True
      with 2 \<open>ty \<in> set accepted\<close> show ?thesis by (simp add: decode_term_def index_def)
    next
      case False
      from generate_arguments_Inr(4) [OF 2] obtain zs where zs: "rest = pos @ zs"
        by (auto simp: prefix_def)
      from False obtain p0 p1 ps where pos: "pos = p0 # p1 # ps"
        by (cases pos; cases "tl pos") auto
      have i1: "index (ty # rest) (Suc 0) = Inr p0" by (simp add: index_def zs pos)
      have i0: "index (ty # rest) 0 = Inr ty" by (simp add: index_def)
      have tr: "translation (new_Translation p0 p1) = p1" by (simp add: new_Translation_def)
      show ?thesis
        using \<open>ty \<in> set accepted\<close> 2 False
        unfolding decode_term_def i0
        by (simp add: i1 build_entry_def pos tr Let_def)
    qed
  qed
qed

lemma positional_after_keyword_iff:
  "positional_after_keyword args \<longleftrightarrow>
     (\<exists>i j. i < j \<and> j < length args \<and> is_keyword (args ! i) \<and> \<not> is_keyword (args ! j))"
  unfolding positional_after_keyword_def by blast

lemma build_entry_fields:
  "language_code (build_entry pos kw) = pos ! 0"
  "translation (build_entry pos kw) =
     (if sublist '']]'' (pos ! 0) then replace_empty '']]'' (replace_empty ''[['' (pos ! 1))
      else pos ! 1)"
  "is_equivalent_term (build_entry pos kw) = (\<not> sublist '']]'' (pos ! 0))"
  "gender (build_entry pos kw) =
     (case kw ''g'' of Some v \<Rightarrow> Some v
      | None \<Rightarrow> if 3 \<le> length pos then Some (pos ! 2) else None)"
  "script_code (build_entry pos kw) = kw ''sc''"
  "transliteration (build_entry pos kw) = kw ''tr''"
  "alternate_form (build_entry pos kw) = kw ''alt''"
  "literal_translation (build_entry pos kw) = kw ''lit''"
  "qualifier (build_entry pos kw) = None"
  by (auto simp: build_entry_def apply_keywords_def new_Translation_def Let_def
      split: option.splits)

lemma decode_term_Nil: "decode_term [] = Inl IndexError"
  by (simp add: decode_term_def index_def)

lemma decode_term_Inr:
  assumes "decode_term cb = Inr e"
  obtains ty rest pos kw where "cb = ty # rest" "ty \<in> set accepted"
    "generate_arguments rest = Inr (pos, kw)" "2 \<le> length pos" "e = build_entry pos kw"
proof (cases cb)
  case Nil
  with assms show ?thesis by (simp add: decode_term_Nil)
next
  case (Cons ty rest)
  show ?thesis
  proof (cases rule: generate_arguments_cases [of rest])
    case 1
    with assms Cons show ?thesis by (simp add: decode_term_Cons split: if_splits)
  next
    case (2 pos kw)
    with assms Cons have "ty \<in> set accepted" "2 \<le> length pos" "e = build_entry pos kw"
      by (auto simp: decode_term_Cons split: if_splits)
    with Cons 2 that show ?thesis by blast
  qed
qed

lemma decode_term_not_IndexError: "cb \<noteq> [] \<Longrightarrow> decode_term cb \<noteq> Inl IndexError"
  by (cases cb; cases rule: generate_arguments_cases [of "tl cb"])
     (auto simp: decode_term_Cons)

lemma decode_term_not_AttributeError: "decode_term cb \<noteq> Inl AttributeError"
  by (cases cb; cases rule: generate_arguments_cases [of "tl cb"])
     (auto simp: decode_term_Cons decode_term_Nil)

subsection \<open>Facts about the loop over the token groups\<close>

lemma codeblock_loop_qualifier:
  "is_qualifier_call cb \<Longrightarrow>
     codeblock_loop (cb # cbs) (q, g) = codeblock_loop cbs (Some (join ''|'' (tl cb)), g)"
  by (cases cb) (auto simp: is_qualifier_call_def index_def)

lemma codeblock_loop_skip:
  assumes "decode_term cb = Inl (TypeError msg)" and "\<not> is_qualifier_call cb"
  shows "codeblock_loop (cb # cbs) (q, g) = codeblock_loop cbs (q, g)"
proof (cases cb)
  case Nil
  with assms show ?thesis by (simp add: decode_term_Nil)
next
  case (Cons tag rest)
  with assms show ?thesis
    by (cases rest) (auto simp: is_qualifier_call_def index_def)
qed

lemma codeblock_loop_entry:
  assumes "decode_term cb = Inr e" and "\<not> is_qualifier_call cb"
  shows "codeblock_loop (cb # cbs) (q, Some g) =
     codeblock_loop cbs
       (q, Some (g\<lparr>group_translations := group_translations g @ [e\<lparr>qualifier := q\<rparr>]\<rparr>))"
proof (cases cb)
  case Nil
  with assms show ?thesis by (simp add: decode_term_Nil)
next
  case (Cons tag rest)
  with assms show ?thesis
    by (cases rest) (auto simp: is_qualifier_call_def index_def)
qed

lemma codeblock_loop_append:
  "codeblock_loop (xs @ ys) st =
     (case codeblock_loop xs st of Inl e \<Rightarrow> Inl e | Inr st' \<Rightarrow> codeblock_loop ys st')"
proof (induction xs arbitrary: st)
  case Nil
  show ?case by (cases st) simp
next
  case (Cons cb xs)
  obtain q g where st: "st = (q, g)" by (cases st)
  show ?case
    unfolding st append_Cons codeblock_loop.simps
    by (simp add: Cons.IH split: sum.splits exn.splits option.splits)
qed

subsection \<open>Facts about the main loop\<close>

lemmas line_eval =
  step_def strip_def isspace_def slice_def suffix_to_prefix sublist_Cons_right prefix_code
  codeblocks_def initial_def main_def parameters_def

lemma current_qualifier_snoc:
  "current_qualifier (cbs @ [cb]) =
     (if is_qualifier_call cb then Some (join ''|'' (tl cb)) else current_qualifier cbs)"
  by (simp add: current_qualifier_def)

lemma segment_entries_snoc:
  "segment_entries (cbs @ [cb]) =
     segment_entries cbs @
     (if is_qualifier_call cb then []
      else case decode_term cb of
             Inr e \<Rightarrow> [e\<lparr>qualifier := current_qualifier cbs\<rparr>]
           | Inl err \<Rightarrow> [])"
proof -
  have e: "entry_at (cbs @ [cb]) i = entry_at cbs i" if "i < length cbs" for i
    using that by (simp add: entry_at_def nth_append cong: sum.case_cong)
  have m: "map (entry_at (cbs @ [cb])) [0..<length cbs] = map (entry_at cbs) [0..<length cbs]"
    by (rule map_cong) (simp_all add: e)
  have l: "entry_at (cbs @ [cb]) (length cbs) =
     (if is_qualifier_call cb then []
      else case decode_term cb of
             Inr e \<Rightarrow> [e\<lparr>qualifier := current_qualifier cbs\<rparr>]
           | Inl err \<Rightarrow> [])"
    by (simp add: entry_at_def cong: sum.case_cong)
  show ?thesis by (simp add: segment_entries_def m l)
qed

lemma decode_term_cases:
  assumes "cb \<noteq> []"
  obtains msg where "decode_term cb = Inl (TypeError msg)" | e where "decode_term cb = Inr e"
proof (cases "decode_term cb")
  case (Inl x)
  with assms decode_term_not_IndexError [of cb] decode_term_not_AttributeError [of cb]
  obtain msg where "x = TypeError msg" by (cases x) auto
  with Inl that show ?thesis by blast
next
  case (Inr e)
  with that show ?thesis by blast
qed

lemma codeblock_loop_single:
  assumes "cb \<noteq> []"
  shows "codeblock_loop [cb] (q, Some g) =
     Inr (if is_qualifier_call cb then Some (join ''|'' (tl cb)) else q,
          Some (g\<lparr>group_translations := group_translations g @
                    (if is_qualifier_call cb then []
                     else case decode_term cb of Inr e \<Rightarrow> [e\<lparr>qualifier := q\<rparr>]
                                               | Inl err \<Rightarrow> [])\<rparr>))"
proof (cases "is_qualifier_call cb")
  case True
  then show ?thesis by (simp add: codeblock_loop_qualifier del: codeblock_loop.simps(2))
next
  case False
  from assms show ?thesis
  proof (cases rule: decode_term_cases)
    case (1 msg)
    with False show ?thesis by (simp add: codeblock_loop_skip del: codeblock_loop.simps(2))
  next
    case (2 e)
    with False show ?thesis by (simp add: codeblock_loop_entry del: codeblock_loop.simps(2))
  qed
qed

lemma codeblock_loop_eq:
  assumes "\<forall>cb \<in> set cbs. cb \<noteq> []"
  shows "codeblock_loop cbs (None, Some g) =
     Inr (current_qualifier cbs,
          Some (g\<lparr>group_translations := group_translations g @ segment_entries cbs\<rparr>))"
  using assms
proof (induction cbs rule: rev_induct)
  case Nil
  show ?case by (simp add: current_qualifier_def segment_entries_def)
next
  case (snoc cb cbs)
  then have ih: "codeblock_loop cbs (None, Some g) =
     Inr (current_qualifier cbs,
          Some (g\<lparr>group_translations := group_translations g @ segment_entries cbs\<rparr>))"
    and ne: "cb \<noteq> []"
    by auto
  show ?case
    by (simp add: codeblock_loop_append ih codeblock_loop_single [OF ne]
        current_qualifier_snoc segment_entries_snoc del: codeblock_loop.simps(2))
qed

lemma codeblocks_not_Nil: "\<forall>cb \<in> set (codeblocks segment). cb \<noteq> []"
  by (simp add: codeblocks_def split_not_Nil)

lemma segment_loop_eq:
  "segment_loop segments (Some g) =
     Inr (Some (g\<lparr>group_translations := group_translations g @
                  concat (map (\<lambda>segment. segment_entries (codeblocks segment)) segments)\<rparr>))"
proof (induction segments arbitrary: g)
  case Nil
  show ?case by simp
next
  case (Cons segment segments)
  show ?case
    by (simp add: codeblock_loop_eq [OF codeblocks_not_Nil] Cons.IH del: codeblock_loop.simps(2))
qed

lemma step_content:
  assumes "is_content_line line" "recording s" "group s = Some g"
  shows "step s line =
     Inr (s\<lparr>group := Some (g\<lparr>group_translations := group_translations g @ line_entries line\<rparr>)\<rparr>)"
  using assms by (simp add: step_def is_content_line_def segment_loop_eq line_entries_def)

lemma step_title:
  "sublist ''<title>'' line \<Longrightarrow>
     step s line =
       Inr (s\<lparr>page_title :=
               Some (if suffix ''/translations'' (slice 7 8 (strip line))
                     then take (length (slice 7 8 (strip line)) - 13) (slice 7 8 (strip line))
                     else slice 7 8 (strip line))\<rparr>)"
  by (simp add: step_def Let_def)

lemma step_open:
  "is_open_line line \<Longrightarrow>
     step s line =
       Inr (s\<lparr>recording := True,
              group := Some \<lparr>meaning = slice 12 2 (strip line), group_translations = []\<rparr>\<rparr>)"
  by (simp add: step_def is_open_line_def)

lemma step_close:
  "is_close_line line \<Longrightarrow>
     step s line =
       Inr (s\<lparr>recording := False,
              all_translations := dict_append (all_translations s) (page_title s) (group s)\<rparr>)"
  by (simp add: step_def is_close_line_def)

lemma step_total:
  assumes "wf_state s"
  shows "\<exists>s'. step s line = Inr s' \<and> wf_state s'"
proof (cases "recording s \<and> is_content_line line")
  case True
  with assms obtain g where g: "group s = Some g" by (auto simp: wf_state_def)
  from True g show ?thesis by (simp add: step_content wf_state_def)
next
  case False
  with assms show ?thesis
    by (auto simp: step_def Let_def wf_state_def is_content_line_def)
qed

lemma step_keeps:
  assumes "\<not> is_close_line line" "step s line = Inr s'"
  shows "all_translations s' = all_translations s"
    and "\<not> is_title_line line \<Longrightarrow> page_title s' = page_title s"
  using assms
  by (auto simp: step_def Let_def is_close_line_def is_title_line_def
      split: if_splits sum.splits)

lemma run_append:
  "run s (xs @ ys) = (case run s xs of Inl e \<Rightarrow> Inl e | Inr s' \<Rightarrow> run s' ys)"
  by (induction xs arbitrary: s) (auto split: sum.splits)

lemma run_total:
  "wf_state s \<Longrightarrow> \<exists>s'. run s ls = Inr s' \<and> wf_state s'"
proof (induction ls arbitrary: s)
  case Nil
  then show ?case by simp
next
  case (Cons l ls)
  from step_total [OF Cons.prems] obtain s1 where "step s l = Inr s1" "wf_state s1" by blast
  with Cons.IH [of s1] show ?case by simp
qed

lemma wf_initial: "wf_state initial"
  by (simp add: wf_state_def initial_def)

lemma run_keeps:
  assumes "wf_state s" "\<forall>l \<in> set ls. \<not> is_close_line l"
  shows "\<exists>s'. run s ls = Inr s' \<and> wf_state s' \<and> all_translations s' = all_translations s"
  using assms
proof (induction ls arbitrary: s)
  case Nil
  then show ?case by simp
next
  case (Cons l ls)
  from step_total [OF Cons.prems(1)] obtain s1 where s1: "step s l = Inr s1" "wf_state s1"
    by blast
  from Cons.prems(2) have "\<not> is_close_line l" by simp
  then have "all_translations s1 = all_translations s" using s1(1) by (rule step_keeps)
  moreover from Cons.prems(2) have "\<forall>l \<in> set ls. \<not> is_close_line l" by simp
  ultimately show ?case using Cons.IH [OF s1(2)] s1(1) by auto
qed

lemma run_same_page:
  assumes "wf_state s" "wf_state t" "page_title s = page_title t"
    "all_translations s = all_translations t" "\<forall>l \<in> set blk. \<not> is_close_line l"
  shows "\<exists>s' t'. run s blk = Inr s' \<and> run t (filter is_title_line blk) = Inr t'
           \<and> wf_state s' \<and> wf_state t' \<and> page_title s' = page_title t'
           \<and> all_translations s' = all_translations t'"
  using assms
proof (induction blk arbitrary: s t)
  case Nil
  then show ?case by simp
next
  case (Cons l blk)
  from step_total [OF Cons.prems(1)] obtain s1 where s1: "step s l = Inr s1" "wf_state s1"
    by blast
  from Cons.prems(5) have nc: "\<not> is_close_line l" and rest: "\<forall>l \<in> set blk. \<not> is_close_line l"
    by simp_all
  have tr: "all_translations s1 = all_translations s" using nc s1(1) by (rule step_keeps)
  show ?case
  proof (cases "is_title_line l")
    case True
    from step_total [OF Cons.prems(2)] obtain t1 where t1: "step t l = Inr t1" "wf_state t1"
      by blast
    have "all_translations t1 = all_translations t" using nc t1(1) by (rule step_keeps)
    moreover from True s1(1) t1(1) have "page_title s1 = page_title t1"
      by (auto simp: is_title_line_def step_title)
    ultimately have "\<exists>s' t'. run s1 blk = Inr s' \<and> run t1 (filter is_title_line blk) = Inr t'
           \<and> wf_state s' \<and> wf_state t' \<and> page_title s' = page_title t'
           \<and> all_translations s' = all_translations t'"
      using Cons.IH [OF s1(2) t1(2) _ _ rest] tr Cons.prems(4) by simp
    with True s1(1) t1(1) show ?thesis by simp
  next
    case False
    then have "page_title s1 = page_title s" using step_keeps(2) [OF nc s1(1)] by simp
    then have "\<exists>s' t'. run s1 blk = Inr s' \<and> run t (filter is_title_line blk) = Inr t'
           \<and> wf_state s' \<and> wf_state t' \<and> page_title s' = page_title t'
           \<and> all_translations s' = all_translations t'"
      using Cons.IH [OF s1(2) Cons.prems(2) _ _ rest] tr Cons.prems(3,4) by simp
    with False s1(1) show ?thesis by simp
  qed
qed

lemma step_open_same:
  assumes "is_open_line l" "page_title s = page_title t" "all_translations s = all_translations t"
  shows "step s l = step t l"
  using assms by (simp add: step_open)

lemma dropWhile_all_then:
  "\<forall>x \<in> set xs. P x \<Longrightarrow> \<not> P y \<Longrightarrow> dropWhile P (xs @ y # ys) = y # ys"
  by (induction xs) auto

lemma strip_title_line:
  assumes "\<forall>c \<in> set ws1. isspace c" "\<forall>c \<in> set ws2. isspace c"
  shows "slice 7 8 (strip (ws1 @ ''<title>'' @ t @ ''</title>'' @ ws2)) = t"
proof -
  have a: "\<not> isspace CHR ''<''" "\<not> isspace CHR ''>''" by (simp_all add: isspace_def)
  have "dropWhile isspace (ws1 @ CHR ''<'' # (''title>'' @ t @ ''</title>'' @ ws2))
      = CHR ''<'' # (''title>'' @ t @ ''</title>'' @ ws2)"
    using assms(1) a(1) by (rule dropWhile_all_then)
  then have 1: "dropWhile isspace (ws1 @ ''<title>'' @ t @ ''</title>'' @ ws2)
      = ''<title>'' @ t @ ''</title>'' @ ws2"
    by simp
  from assms(2) have "\<forall>c \<in> set (rev ws2). isspace c" by simp
  then have "dropWhile isspace (rev ws2 @ CHR ''>'' # rev (''<title>'' @ t @ ''</title''))
      = CHR ''>'' # rev (''<title>'' @ t @ ''</title'')"
    using a(2) by (rule dropWhile_all_then)
  then have 2: "dropWhile isspace (rev (''<title>'' @ t @ ''</title>'' @ ws2))
      = rev (''<title>'' @ t @ ''</title>'')"
    by simp
  have "strip (ws1 @ ''<title>'' @ t @ ''</title>'' @ ws2) = ''<title>'' @ t @ ''</title>''"
    unfolding strip_def 1 2 by simp
  then show ?thesis by (simp add: slice_def)
qed


section \<open>Claims\<close>

text \<open>
  C1. The spec says that a second positional argument containing both \<^verbatim>\<open>[[\<close> and \<^verbatim>\<open>]]\<close>
  gives \<open>is_equivalent = false\<close> and a text without the markers, and that
  \<^verbatim>\<open>t|fr|[[bon]] [[matin]]\<close> decodes to the text \<^verbatim>\<open>bon matin\<close>. The code tests \<^verbatim>\<open>arguments[1]\<close>,
  which is the language code, and only for \<^verbatim>\<open>]]\<close>: on that input the entry keeps its
  brackets and stays marked as an equivalent term.
\<close>

theorem decode_term_linked_phrase_kept:
  "decode_term [''t'', ''fr'', ''[[bon]] [[matin]]''] =
     Inr \<lparr>language_code = ''fr'', translation = ''[[bon]] [[matin]]'',
          is_equivalent_term = True, gender = None, script_code = None,
          transliteration = None, alternate_form = None, literal_translation = None,
          qualifier = None\<rparr>"
  by (simp add: decode_eval)

text \<open>
  C4. \<open>generate_arguments\<close> raises exactly when a token without \<^verbatim>\<open>=\<close> comes after a token
  with \<^verbatim>\<open>=\<close>, and it raises nothing else. Otherwise it returns the tokens without \<^verbatim>\<open>=\<close> in
  order, and the dictionary built from the pairs of the tokens with \<^verbatim>\<open>=\<close> in order, a later
  pair replacing an earlier one with the same key. The pair of a token is what stands before
  and after its first \<^verbatim>\<open>=\<close>, unchanged.
\<close>

theorem generate_arguments_ordering:
  "(generate_arguments args = Inl MalformedArguments \<longleftrightarrow>
      (\<exists>i j. i < j \<and> j < length args \<and> is_keyword (args ! i) \<and> \<not> is_keyword (args ! j)))
   \<and> (generate_arguments args \<noteq> Inl MalformedArguments \<longrightarrow>
        generate_arguments args =
          Inr (filter (\<lambda>a. \<not> is_keyword a) args,
               map_of (rev (map keyword_pair (filter is_keyword args)))))
   \<and> (\<forall>a. is_keyword a \<longrightarrow>
         a = fst (keyword_pair a) @ ''='' @ snd (keyword_pair a)
         \<and> CHR ''='' \<notin> set (fst (keyword_pair a)))"
proof (intro conjI allI impI)
  show "generate_arguments args = Inl MalformedArguments \<longleftrightarrow>
      (\<exists>i j. i < j \<and> j < length args \<and> is_keyword (args ! i) \<and> \<not> is_keyword (args ! j))"
    unfolding positional_after_keyword_iff [symmetric]
    by (simp add: generate_arguments_eq)
next
  assume "generate_arguments args \<noteq> Inl MalformedArguments"
  then show "generate_arguments args =
          Inr (filter (\<lambda>a. \<not> is_keyword a) args,
               map_of (rev (map keyword_pair (filter is_keyword args))))"
    by (simp add: generate_arguments_eq split: if_splits)
next
  fix a assume "is_keyword a"
  then show "a = fst (keyword_pair a) @ ''='' @ snd (keyword_pair a)"
    by (rule keyword_pair_split)
next
  fix a assume "is_keyword a"
  then show "CHR ''='' \<notin> set (fst (keyword_pair a))"
    by (rule keyword_pair_split)
qed

theorem generate_arguments_ordering_witness:
  "generate_arguments [''k=v'', ''a''] = Inl MalformedArguments
   \<and> generate_arguments [''a'', ''b'', ''k=v=w''] = Inr ([''a'', ''b''], [''k'' \<mapsto> ''v=w''])
   \<and> ''k=v=w'' = ''k'' @ ''='' @ ''v=w''"
proof -
  have "(0::nat) < 1 \<and> 1 < length [''k=v'', ''a''] \<and> is_keyword ([''k=v'', ''a''] ! 0)
      \<and> \<not> is_keyword ([''k=v'', ''a''] ! 1)"
    by (simp add: is_keyword_def)
  then have "\<exists>i j. i < j \<and> j < length [''k=v'', ''a''] \<and> is_keyword ([''k=v'', ''a''] ! i)
      \<and> \<not> is_keyword ([''k=v'', ''a''] ! j)"
    by blast
  with generate_arguments_ordering [of "[''k=v'', ''a'']"]
  have 1: "generate_arguments [''k=v'', ''a''] = Inl MalformedArguments" by blast
  have "generate_arguments [''a'', ''b'', ''k=v=w''] \<noteq> Inl MalformedArguments"
    by (simp add: decode_eval)
  with generate_arguments_ordering [of "[''a'', ''b'', ''k=v=w'']"]
  have "generate_arguments [''a'', ''b'', ''k=v=w''] =
          Inr (filter (\<lambda>a. \<not> is_keyword a) [''a'', ''b'', ''k=v=w''],
               map_of (rev (map keyword_pair (filter is_keyword [''a'', ''b'', ''k=v=w'']))))"
    by blast
  then have 2: "generate_arguments [''a'', ''b'', ''k=v=w''] = Inr ([''a'', ''b''], [''k'' \<mapsto> ''v=w''])"
    by (simp add: is_keyword_def keyword_pair_def)
  from 1 2 show ?thesis by simp
qed

text \<open>
  C10. When a key occurs in several keyword tokens and the split succeeds, the dictionary
  holds the value of the last of them: a keyword token whose key no later token has is
  looked up to its own value.
\<close>

theorem generate_arguments_last_wins:
  assumes ok: "generate_arguments args = Inr (pos, kw)"
    and i: "i < length args" and k: "is_keyword (args ! i)"
    and last: "\<forall>j. i < j \<and> j < length args \<longrightarrow>
                 fst (keyword_pair (args ! j)) \<noteq> fst (keyword_pair (args ! i))"
  shows "kw (fst (keyword_pair (args ! i))) = Some (snd (keyword_pair (args ! i)))"
proof -
  let ?a = "args ! i"
  let ?post = "filter is_keyword (drop (Suc i) args)"
  let ?pre = "filter is_keyword (take i args)"
  have split: "args = take i args @ ?a # drop (Suc i) args"
    using i by (rule id_take_nth_drop)
  have "filter is_keyword args = ?pre @ ?a # ?post"
    by (subst split) (simp add: k)
  with generate_arguments_Inr(3) [OF ok]
  have kw: "kw = (map_of (rev (map keyword_pair ?pre)) ++ [fst (keyword_pair ?a) \<mapsto> snd (keyword_pair ?a)])
              ++ map_of (rev (map keyword_pair ?post))"
    by simp
  have "fst (keyword_pair ?a) \<notin> fst ` set (rev (map keyword_pair ?post))"
  proof
    assume "fst (keyword_pair ?a) \<in> fst ` set (rev (map keyword_pair ?post))"
    then obtain b where b: "b \<in> set (drop (Suc i) args)"
      and eq: "fst (keyword_pair b) = fst (keyword_pair ?a)"
      by auto
    from b obtain n where "b = drop (Suc i) args ! n" "n < length (drop (Suc i) args)"
      by (auto simp: in_set_conv_nth)
    then have "b = args ! (Suc i + n)" "Suc i + n < length args" "i < Suc i + n"
      by auto
    with last eq show False by metis
  qed
  then have "map_of (rev (map keyword_pair ?post)) (fst (keyword_pair ?a)) = None"
    unfolding map_of_eq_None_iff .
  then show ?thesis
    by (subst kw) (simp add: map_add_def)
qed

theorem generate_arguments_last_wins_witness:
  "generate_arguments [''hola'', ''g=m'', ''tr=x'', ''g=f''] =
     Inr ([''hola''], [''g'' \<mapsto> ''f'', ''tr'' \<mapsto> ''x''])
   \<and> [''g'' \<mapsto> ''f'', ''tr'' \<mapsto> ''x''] ''g'' = Some ''f''"
proof -
  let ?args = "[''hola'', ''g=m'', ''tr=x'', ''g=f'']"
  let ?kw = "[''g'' \<mapsto> ''f'', ''tr'' \<mapsto> ''x'']"
  have ok: "generate_arguments ?args = Inr ([''hola''], ?kw)"
    by (simp add: decode_eval fun_upd_twist)
  have "?kw (fst (keyword_pair (?args ! 3))) = Some (snd (keyword_pair (?args ! 3)))"
    by (rule generate_arguments_last_wins [OF ok]) (auto simp: is_keyword_def)
  then have "?kw ''g'' = Some ''f''" by (simp add: keyword_pair_def)
  with ok show ?thesis by blast
qed

text \<open>
  C8. After a successful decode the gender is the value of the keyword \<^verbatim>\<open>g\<close> when there is
  one, also when a third positional argument is present, and otherwise the third positional
  argument if there is one; the script code, transliteration, alternate form and literal
  translation are the values of \<^verbatim>\<open>sc\<close>, \<^verbatim>\<open>tr\<close>, \<^verbatim>\<open>alt\<close> and \<^verbatim>\<open>lit\<close>. The witness decodes
  \<^verbatim>\<open>t|de|Hund|g=m\<close> to the gender \<^verbatim>\<open>m\<close>.
\<close>

theorem decode_term_keyword_overrides:
  assumes "decode_term (ty # rest) = Inr e" and "generate_arguments rest = Inr (pos, kw)"
  shows "gender e =
           (case kw ''g'' of Some v \<Rightarrow> Some v
            | None \<Rightarrow> if 3 \<le> length pos then Some (pos ! 2) else None)
         \<and> script_code e = kw ''sc'' \<and> transliteration e = kw ''tr''
         \<and> alternate_form e = kw ''alt'' \<and> literal_translation e = kw ''lit''"
proof -
  from assms have "e = build_entry pos kw"
    by (simp add: decode_term_Cons split: if_splits)
  then show ?thesis by (simp add: build_entry_fields)
qed

theorem decode_term_keyword_overrides_witness:
  "decode_term [''t'', ''de'', ''Hund'', ''g=m''] =
     Inr \<lparr>language_code = ''de'', translation = ''Hund'', is_equivalent_term = True,
          gender = Some ''m'', script_code = None, transliteration = None,
          alternate_form = None, literal_translation = None, qualifier = None\<rparr>
   \<and> gender \<lparr>language_code = ''de'', translation = ''Hund'', is_equivalent_term = True,
          gender = Some ''m'', script_code = None, transliteration = None,
          alternate_form = None, literal_translation = None, qualifier = None\<rparr> = Some ''m''
   \<and> decode_term [''t'', ''de'', ''Hund'', ''n'', ''g=m'', ''tr=x''] =
     Inr \<lparr>language_code = ''de'', translation = ''Hund'', is_equivalent_term = True,
          gender = Some ''m'', script_code = None, transliteration = Some ''x'',
          alternate_form = None, literal_translation = None, qualifier = None\<rparr>"
proof -
  let ?e = "\<lparr>language_code = ''de'', translation = ''Hund'', is_equivalent_term = True,
          gender = Some ''m'', script_code = None, transliteration = None,
          alternate_form = None, literal_translation = None, qualifier = None\<rparr>"
  have d: "decode_term [''t'', ''de'', ''Hund'', ''g=m''] = Inr ?e"
    by (simp add: decode_eval)
  have g: "generate_arguments [''de'', ''Hund'', ''g=m''] = Inr ([''de'', ''Hund''], [''g'' \<mapsto> ''m''])"
    by (simp add: decode_eval)
  from decode_term_keyword_overrides [OF d g] have "gender ?e = Some ''m''" by simp
  moreover have "decode_term [''t'', ''de'', ''Hund'', ''n'', ''g=m'', ''tr=x''] =
     Inr \<lparr>language_code = ''de'', translation = ''Hund'', is_equivalent_term = True,
          gender = Some ''m'', script_code = None, transliteration = Some ''x'',
          alternate_form = None, literal_translation = None, qualifier = None\<rparr>"
    by (simp add: decode_eval)
  ultimately show ?thesis using d by blast
qed

text \<open>
  C5. On a token group with a first token, \<open>decode_term\<close> raises the unrecognized-template
  error exactly when that token is not one of the five accepted names; with an accepted name
  and arguments that split, it raises the missing-argument error exactly when fewer than two
  positional arguments result; \<^verbatim>\<open>x|en|hello\<close> is unrecognized; and a token group on which
  \<open>decode_term\<close> raises a \<^verbatim>\<open>TypeError\<close> is skipped by the loop over the token groups, which goes
  on as if the group were not there.
\<close>

theorem decode_term_failures:
  "(decode_term (ty # rest) = Inl UnrecognizedTemplate \<longleftrightarrow> ty \<notin> set accepted)
   \<and> (ty \<in> set accepted \<longrightarrow> generate_arguments rest = Inr (pos, kw) \<longrightarrow>
        (decode_term (ty # rest) = Inl MissingRequiredArgument \<longleftrightarrow> length pos < 2))
   \<and> decode_term [''x'', ''en'', ''hello''] = Inl UnrecognizedTemplate
   \<and> (decode_term cb = Inl (TypeError msg) \<longrightarrow> \<not> is_qualifier_call cb \<longrightarrow>
        codeblock_loop (cbs1 @ cb # cbs2) (q, g) = codeblock_loop (cbs1 @ cbs2) (q, g))"
proof (intro conjI impI)
  show "decode_term (ty # rest) = Inl UnrecognizedTemplate \<longleftrightarrow> ty \<notin> set accepted"
    by (cases rule: generate_arguments_cases [of rest]) (auto simp: decode_term_Cons)
next
  assume "ty \<in> set accepted" "generate_arguments rest = Inr (pos, kw)"
  then show "decode_term (ty # rest) = Inl MissingRequiredArgument \<longleftrightarrow> length pos < 2"
    by (auto simp: decode_term_Cons)
next
  show "decode_term [''x'', ''en'', ''hello''] = Inl UnrecognizedTemplate"
    by (simp add: decode_term_Cons)
next
  assume a: "decode_term cb = Inl (TypeError msg)" "\<not> is_qualifier_call cb"
  have h: "codeblock_loop (cb # cbs2) st = codeblock_loop cbs2 st" for st
    using codeblock_loop_skip [OF a] by (cases st) simp
  show "codeblock_loop (cbs1 @ cb # cbs2) (q, g) = codeblock_loop (cbs1 @ cbs2) (q, g)"
    by (simp add: codeblock_loop_append h split: sum.splits)
qed

theorem decode_term_failures_witness:
  "decode_term [''x'', ''en'', ''hello''] = Inl UnrecognizedTemplate
   \<and> decode_term [''t'', ''en''] = Inl MissingRequiredArgument
   \<and> codeblock_loop [[''t'', ''es'', ''hola''], [''x'', ''en'', ''hello''], [''t'', ''es'', ''adios'']]
         (None, Some \<lparr>meaning = ''greeting'', group_translations = []\<rparr>) =
       codeblock_loop [[''t'', ''es'', ''hola''], [''t'', ''es'', ''adios'']]
         (None, Some \<lparr>meaning = ''greeting'', group_translations = []\<rparr>)"
proof -
  note t = decode_term_failures [of "''t''" "[''en'']" "[''en'']" Map.empty "[''x'', ''en'', ''hello'']"
      "''Incorrect list type''" "[[''t'', ''es'', ''hola'']]" "[[''t'', ''es'', ''adios'']]" None
      "Some \<lparr>meaning = ''greeting'', group_translations = []\<rparr>"]
  have 1: "decode_term [''x'', ''en'', ''hello''] = Inl UnrecognizedTemplate"
    using t by blast
  have "generate_arguments [''en''] = Inr ([''en''], Map.empty)" by (simp add: decode_eval)
  with t have 2: "decode_term [''t'', ''en''] = Inl MissingRequiredArgument" by simp
  have "\<not> is_qualifier_call [''x'', ''en'', ''hello'']" by (simp add: is_qualifier_call_def)
  with t 1 have 3: "codeblock_loop ([[''t'', ''es'', ''hola'']] @ [''x'', ''en'', ''hello''] # [[''t'', ''es'', ''adios'']])
         (None, Some \<lparr>meaning = ''greeting'', group_translations = []\<rparr>) =
       codeblock_loop ([[''t'', ''es'', ''hola'']] @ [[''t'', ''es'', ''adios'']])
         (None, Some \<lparr>meaning = ''greeting'', group_translations = []\<rparr>)"
    by blast
  from 1 2 3 show ?thesis by simp
qed

text \<open>
  C2, as the spec states it: after a successful decode the language code and the text are
  non-empty. The token group of \<^verbatim>\<open>{{t||}}\<close> decodes to an entry in which both are empty.
\<close>

theorem decode_term_empty_fields:
  "decode_term [''t'', [], []] =
     Inr \<lparr>language_code = [], translation = [], is_equivalent_term = True,
          gender = None, script_code = None, transliteration = None,
          alternate_form = None, literal_translation = None, qualifier = None\<rparr>"
  by (simp add: decode_eval)

text \<open>
  C2, amended: after a successful decode the token group had an accepted name followed by at
  least two positional tokens; the language code is the first of them and the text is the
  second, as it stands or with the link markers removed, and either may be empty. A token
  group on which \<open>decode_term\<close> raises a \<^verbatim>\<open>TypeError\<close> is discarded: the open group and the
  qualifier are as before, so no row comes from it.
\<close>

theorem decode_term_required_fields:
  "(decode_term cb = Inr e \<longrightarrow>
      (\<exists>ty lang tx rest. cb = ty # lang # tx # rest \<and> ty \<in> set accepted
          \<and> \<not> is_keyword lang \<and> \<not> is_keyword tx \<and> language_code e = lang
          \<and> (translation e = tx
               \<or> translation e = replace_empty '']]'' (replace_empty ''[['' tx))))
   \<and> (decode_term cb = Inl (TypeError msg) \<longrightarrow> \<not> is_qualifier_call cb \<longrightarrow>
        codeblock_loop (cb # cbs) (q, g) = codeblock_loop cbs (q, g))"
proof (intro conjI impI)
  assume "decode_term cb = Inr e"
  then obtain ty rest pos kw where cb: "cb = ty # rest" and ty: "ty \<in> set accepted"
    and ga: "generate_arguments rest = Inr (pos, kw)" and len: "2 \<le> length pos"
    and e: "e = build_entry pos kw"
    by (rule decode_term_Inr)
  from len obtain lang tx ps where pos: "pos = lang # tx # ps"
    by (cases pos; cases "tl pos") auto
  from generate_arguments_Inr(4) [OF ga] obtain zs where rest: "rest = pos @ zs"
    by (auto simp: prefix_def)
  have "set (filter (\<lambda>a. \<not> is_keyword a) rest) \<subseteq> {a. \<not> is_keyword a}" by auto
  with generate_arguments_Inr(2) [OF ga] have "set pos \<subseteq> {a. \<not> is_keyword a}" by simp
  with pos have nk: "\<not> is_keyword lang" "\<not> is_keyword tx" by auto
  have "cb = ty # lang # tx # (ps @ zs)" by (simp add: cb rest pos)
  moreover have "language_code e = lang" by (simp add: e build_entry_fields pos)
  moreover have "translation e = tx
      \<or> translation e = replace_empty '']]'' (replace_empty ''[['' tx)"
    by (simp add: e build_entry_fields pos)
  ultimately show "\<exists>ty lang tx rest. cb = ty # lang # tx # rest \<and> ty \<in> set accepted
          \<and> \<not> is_keyword lang \<and> \<not> is_keyword tx \<and> language_code e = lang
          \<and> (translation e = tx
               \<or> translation e = replace_empty '']]'' (replace_empty ''[['' tx))"
    using ty nk by blast
next
  assume "decode_term cb = Inl (TypeError msg)" "\<not> is_qualifier_call cb"
  then show "codeblock_loop (cb # cbs) (q, g) = codeblock_loop cbs (q, g)"
    by (rule codeblock_loop_skip)
qed

theorem decode_term_required_fields_witness:
  "decode_term [''t'', ''fr'', ''chat''] =
     Inr \<lparr>language_code = ''fr'', translation = ''chat'', is_equivalent_term = True,
          gender = None, script_code = None, transliteration = None,
          alternate_form = None, literal_translation = None, qualifier = None\<rparr>
   \<and> decode_term [''t'', ''fr''] = Inl MissingRequiredArgument
   \<and> codeblock_loop [[''t'', ''fr'']] (None, Some \<lparr>meaning = ''cat'', group_translations = []\<rparr>)
       = Inr (None, Some \<lparr>meaning = ''cat'', group_translations = []\<rparr>)"
proof -
  let ?e = "\<lparr>language_code = ''fr'', translation = ''chat'', is_equivalent_term = True,
          gender = None, script_code = None, transliteration = None,
          alternate_form = None, literal_translation = None, qualifier = None\<rparr>"
  let ?g = "Some \<lparr>meaning = ''cat'', group_translations = []\<rparr>"
  have 1: "decode_term [''t'', ''fr'', ''chat''] = Inr ?e" by (simp add: decode_eval)
  have 2: "decode_term [''t'', ''fr''] = Inl MissingRequiredArgument" by (simp add: decode_eval)
  have nq: "\<not> is_qualifier_call [''t'', ''fr'']" by (simp add: is_qualifier_call_def)
  from decode_term_required_fields [of "[''t'', ''fr'']" ?e "''Missing required positional arguments''" "[]" None ?g]
    2 nq
  have "codeblock_loop [[''t'', ''fr'']] (None, ?g) = codeblock_loop [] (None, ?g)" by blast
  then have 3: "codeblock_loop [[''t'', ''fr'']] (None, ?g) = Inr (None, ?g)" by simp
  from 1 2 3 show ?thesis by blast
qed

text \<open>
  C3. The spec says that a line with the block-close marker is a no-op while no block is
  open. The branch of line 139 appends unconditionally: on the first line of a stream it
  stores \<^verbatim>\<open>None\<close> under the page \<^verbatim>\<open>None\<close>, and the output loop then raises on
  \<^verbatim>\<open>group.translations\<close>; after a closed block, a second close marker stores the same group
  again and its rows are written twice.
\<close>

theorem close_while_idle_appends:
  "step initial ''{{trans-bottom}}'' =
     Inr \<lparr>page_title = None, recording = False, group = None,
          all_translations = [(None, [None])]\<rparr>
   \<and> main [''{{trans-bottom}}''] = Inl AttributeError
   \<and> main [''<title>W</title>'', ''{{trans-top|m}}'', ''{{t|fr|x}}'', ''{{trans-bottom}}'',
            ''{{trans-bottom}}''] =
     Inr [(Some ''W'', ''m'', ''fr'', ''x'', True, None, None, None, None, None, None),
          (Some ''W'', ''m'', ''fr'', ''x'', True, None, None, None, None, None, None)]"
proof (intro conjI)
  show "step initial ''{{trans-bottom}}'' =
     Inr \<lparr>page_title = None, recording = False, group = None,
          all_translations = [(None, [None])]\<rparr>"
    by (simp add: line_eval)
  show "main [''{{trans-bottom}}''] = Inl AttributeError"
    by (simp add: line_eval)
  show "main [''<title>W</title>'', ''{{trans-top|m}}'', ''{{t|fr|x}}'', ''{{trans-bottom}}'',
            ''{{trans-bottom}}''] =
     Inr [(Some ''W'', ''m'', ''fr'', ''x'', True, None, None, None, None, None, None),
          (Some ''W'', ''m'', ''fr'', ''x'', True, None, None, None, None, None, None)]"
    by (simp add: line_eval decode_eval)
qed

text \<open>
  C9. A line containing \<^verbatim>\<open><title>\<close> sets the page title to the extracted title, which is
  \<^verbatim>\<open>line.strip()[7:-8]\<close>, without a final \<^verbatim>\<open>/translations\<close> when it has one, and changes
  nothing else, in particular not \<^verbatim>\<open>recording\<close>. On a line made of the title between
  \<^verbatim>\<open><title>\<close> and \<^verbatim>\<open></title>\<close>, with white space around, the extracted title is that title.
  The witness is the title \<^verbatim>\<open>Word/translations\<close>, which gives the page \<^verbatim>\<open>Word\<close>.
\<close>

theorem step_title_line:
  assumes "sublist ''<title>'' line"
  shows "\<exists>key. step s line = Inr (s\<lparr>page_title := Some key\<rparr>)
           \<and> (\<forall>t. slice 7 8 (strip line) = t @ ''/translations'' \<longrightarrow> key = t)
           \<and> (\<not> suffix ''/translations'' (slice 7 8 (strip line)) \<longrightarrow>
                key = slice 7 8 (strip line))
           \<and> recording (s\<lparr>page_title := Some key\<rparr>) = recording s
           \<and> (\<forall>ws1 ws2 t. (\<forall>c \<in> set ws1. isspace c) \<and> (\<forall>c \<in> set ws2. isspace c)
                  \<and> line = ws1 @ ''<title>'' @ t @ ''</title>'' @ ws2 \<longrightarrow>
                slice 7 8 (strip line) = t)"
proof -
  let ?x = "slice 7 8 (strip line)"
  let ?key = "if suffix ''/translations'' ?x then take (length ?x - 13) ?x else ?x"
  have "step s line = Inr (s\<lparr>page_title := Some ?key\<rparr>)"
    using assms by (rule step_title)
  moreover have "\<forall>t. ?x = t @ ''/translations'' \<longrightarrow> ?key = t"
    by (auto simp: suffix_def)
  moreover have "\<not> suffix ''/translations'' ?x \<longrightarrow> ?key = ?x" by simp
  moreover have "recording (s\<lparr>page_title := Some ?key\<rparr>) = recording s" by simp
  moreover have "\<forall>ws1 ws2 t. (\<forall>c \<in> set ws1. isspace c) \<and> (\<forall>c \<in> set ws2. isspace c)
                  \<and> line = ws1 @ ''<title>'' @ t @ ''</title>'' @ ws2 \<longrightarrow> ?x = t"
    using strip_title_line by blast
  ultimately show ?thesis by blast
qed

theorem step_title_line_witness:
  "step \<lparr>page_title = Some ''Old'', recording = True,
         group = Some \<lparr>meaning = ''m'', group_translations = []\<rparr>, all_translations = []\<rparr>
        (''    <title>Word/translations</title>'' @ [CHR 0x0A]) =
     Inr \<lparr>page_title = Some ''Word'', recording = True,
          group = Some \<lparr>meaning = ''m'', group_translations = []\<rparr>, all_translations = []\<rparr>"
proof -
  let ?line = "''    <title>Word/translations</title>'' @ [CHR 0x0A]"
  let ?s = "\<lparr>page_title = Some ''Old'', recording = True,
         group = Some \<lparr>meaning = ''m'', group_translations = []\<rparr>, all_translations = []\<rparr>"
  have "sublist ''<title>'' ?line" by (simp add: sublist_Cons_right prefix_code)
  from step_title_line [OF this, of ?s] obtain key
    where st: "step ?s ?line = Inr (?s\<lparr>page_title := Some key\<rparr>)"
      and k: "\<forall>t. slice 7 8 (strip ?line) = t @ ''/translations'' \<longrightarrow> key = t"
    by blast
  have "slice 7 8 (strip ?line) = ''Word'' @ ''/translations''"
    by (simp add: strip_def isspace_def slice_def)
  with k have "key = ''Word''" by blast
  with st show ?thesis by simp
qed

text \<open>
  C6. Only the branch for the block-close marker stores a group. Lines after the last close
  marker change nothing in the output, so a group still open at the end of the stream is not
  written. A block that is opened and, before any close marker, followed by another
  block-open marker leaves no trace: the output is the same as without its opening line and
  its content lines (title lines in between keep their effect on the page title).
\<close>

theorem unclosed_group_not_emitted:
  "((\<forall>l \<in> set ls. \<not> is_close_line l) \<longrightarrow> main (pre @ ls) = main pre)
   \<and> (is_open_line l1 \<longrightarrow> (\<forall>l \<in> set body. \<not> is_close_line l) \<longrightarrow> is_open_line l2 \<longrightarrow>
        main (pre @ l1 # body @ l2 # rest) = main (pre @ filter is_title_line body @ l2 # rest))"
proof (intro conjI impI)
  from run_total [OF wf_initial, of pre] obtain s where s: "run initial pre = Inr s" "wf_state s"
    by blast
  {
    assume "\<forall>l \<in> set ls. \<not> is_close_line l"
    from run_keeps [OF s(2) this] obtain s' where "run s ls = Inr s'"
      "all_translations s' = all_translations s"
      by blast
    with s(1) show "main (pre @ ls) = main pre" by (simp add: main_def run_append)
  }
  {
    assume o1: "is_open_line l1" and nc: "\<forall>l \<in> set body. \<not> is_close_line l"
      and o2: "is_open_line l2"
    from o1 have l1: "\<not> is_close_line l1" "\<not> is_title_line l1"
      by (simp_all add: is_open_line_def is_close_line_def is_title_line_def)
    with nc have "\<forall>l \<in> set (l1 # body). \<not> is_close_line l" by simp
    from run_same_page [OF s(2) s(2) refl refl this] l1(2) obtain s' t'
      where r: "run s (l1 # body) = Inr s'" "run s (filter is_title_line body) = Inr t'"
        and eq: "page_title s' = page_title t'" "all_translations s' = all_translations t'"
      by auto
    from step_open_same [OF o2 eq] have "run s' (l2 # rest) = run t' (l2 # rest)" by simp
    with r have "run s ((l1 # body) @ l2 # rest) = run s (filter is_title_line body @ l2 # rest)"
      unfolding run_append by simp
    with s(1) show "main (pre @ l1 # body @ l2 # rest)
        = main (pre @ filter is_title_line body @ l2 # rest)"
      by (simp add: main_def run_append)
  }
qed

theorem unclosed_group_not_emitted_witness:
  "main [''<title>W</title>'', ''{{trans-top|m}}'', ''{{t|fr|x}}'', ''{{trans-bottom}}'',
         ''{{trans-top|n}}'', ''{{t|fr|y}}''] =
     Inr [(Some ''W'', ''m'', ''fr'', ''x'', True, None, None, None, None, None, None)]
   \<and> main [''<title>W</title>'', ''{{trans-top|a}}'', ''{{t|fr|x}}'', ''{{trans-top|m}}'',
         ''{{t|fr|y}}'', ''{{trans-bottom}}''] =
     Inr [(Some ''W'', ''m'', ''fr'', ''y'', True, None, None, None, None, None, None)]"
proof -
  let ?pre = "[''<title>W</title>'', ''{{trans-top|m}}'', ''{{t|fr|x}}'', ''{{trans-bottom}}'']"
  let ?ls = "[''{{trans-top|n}}'', ''{{t|fr|y}}'']"
  have "\<forall>l \<in> set ?ls. \<not> is_close_line l"
    by (simp add: is_close_line_def sublist_Cons_right prefix_code)
  with unclosed_group_not_emitted [of ?ls ?pre] have "main (?pre @ ?ls) = main ?pre" by blast
  moreover have "main ?pre =
      Inr [(Some ''W'', ''m'', ''fr'', ''x'', True, None, None, None, None, None, None)]"
    by (simp add: line_eval decode_eval)
  ultimately have 1: "main [''<title>W</title>'', ''{{trans-top|m}}'', ''{{t|fr|x}}'',
         ''{{trans-bottom}}'', ''{{trans-top|n}}'', ''{{t|fr|y}}''] =
     Inr [(Some ''W'', ''m'', ''fr'', ''x'', True, None, None, None, None, None, None)]"
    by simp
  let ?rest = "[''{{t|fr|y}}'', ''{{trans-bottom}}'']"
  have h: "is_open_line ''{{trans-top|a}}''" "\<forall>l \<in> set [''{{t|fr|x}}'']. \<not> is_close_line l"
    "is_open_line ''{{trans-top|m}}''"
    by (simp_all add: is_open_line_def is_close_line_def sublist_Cons_right prefix_code)
  with unclosed_group_not_emitted [of "[]" "[''<title>W</title>'']" "''{{trans-top|a}}''"
      "[''{{t|fr|x}}'']" "''{{trans-top|m}}''" ?rest]
  have "main ([''<title>W</title>''] @ ''{{trans-top|a}}'' # [''{{t|fr|x}}''] @ ''{{trans-top|m}}'' # ?rest)
      = main ([''<title>W</title>''] @ filter is_title_line [''{{t|fr|x}}''] @ ''{{trans-top|m}}'' # ?rest)"
    by blast
  moreover have "filter is_title_line [''{{t|fr|x}}''] = []"
    by (simp add: is_title_line_def sublist_Cons_right prefix_code)
  moreover have "main [''<title>W</title>'', ''{{trans-top|m}}'', ''{{t|fr|y}}'', ''{{trans-bottom}}'']
      = Inr [(Some ''W'', ''m'', ''fr'', ''y'', True, None, None, None, None, None, None)]"
    by (simp add: line_eval decode_eval)
  ultimately have 2: "main [''<title>W</title>'', ''{{trans-top|a}}'', ''{{t|fr|x}}'',
         ''{{trans-top|m}}'', ''{{t|fr|y}}'', ''{{trans-bottom}}''] =
     Inr [(Some ''W'', ''m'', ''fr'', ''y'', True, None, None, None, None, None, None)]"
    by simp
  from 1 2 show ?thesis by blast
qed



end
